theory Spec2Isabelle
  imports Complex_Main "HOL-Library.Monad_Syntax"
begin

section \<open>Numbers\<close>

text \<open>
  C++ \<^verbatim>\<open>int\<close> has 32 bits, and an \<^verbatim>\<open>int\<close> computation whose result is not a value of
  the type is undefined behaviour.  The model computes in the integers and checks the
  result: \<open>checked v\<close> is \<open>v\<close> when \<open>v\<close> is a value of \<^verbatim>\<open>int\<close>, and \<open>None\<close> otherwise, and
  an operation that overflows has the result \<open>None\<close>.  So have the operations that read
  a vector outside its bounds.
\<close>

definition INT_MAX :: int where
  "INT_MAX = 2147483647"

definition INT_MIN :: int where
  "INT_MIN = - 2147483648"

definition int32 :: "int \<Rightarrow> bool" where
  "int32 v = (INT_MIN \<le> v \<and> v \<le> INT_MAX)"

definition checked :: "int \<Rightarrow> int option" where
  "checked v = (if int32 v then Some v else None)"

text \<open>
  The engine computes with C++ \<^verbatim>\<open>float\<close>.  A \<open>float\<close> of the model is either a finite
  real number or one of the three special values of IEEE 754.  The model has the
  operations of the code one by one, in the order of the code.  On finite values an
  operation of the model is the operation of the real numbers: the rounding of a result
  to the 24 significant bits of a \<^verbatim>\<open>float\<close>, overflow to an infinity, underflow and the
  sign of zero are not modelled (a zero divisor counts as \<open>+0\<close>).  The model and the code
  agree where the operations of the code are exact, as they are on 0, 1 and -1; nothing
  is proved here about the size of a rounding error.  Arithmetic on the special values
  follows IEEE 754: a division by zero does not trap, it yields an infinity or \<open>NaN\<close>, and
  \<open>NaN\<close> propagates.  The equality of the model is the identity of values, so \<open>NaN = NaN\<close>
  holds here.
\<close>

datatype float = Fin real | PInf | NInf | NaN

instantiation float :: "{plus, minus, uminus, times, inverse}"
begin

fun uminus_float :: "float \<Rightarrow> float" where
  "uminus_float (Fin a) = Fin (- a)"
| "uminus_float PInf = NInf"
| "uminus_float NInf = PInf"
| "uminus_float NaN = NaN"

fun plus_float :: "float \<Rightarrow> float \<Rightarrow> float" where
  "plus_float (Fin a) (Fin b) = Fin (a + b)"
| "plus_float NaN _ = NaN"
| "plus_float _ NaN = NaN"
| "plus_float PInf NInf = NaN"
| "plus_float NInf PInf = NaN"
| "plus_float PInf _ = PInf"
| "plus_float _ PInf = PInf"
| "plus_float NInf _ = NInf"
| "plus_float _ NInf = NInf"

definition minus_float :: "float \<Rightarrow> float \<Rightarrow> float" where
  "minus_float a b = a + (- b)"

fun times_float :: "float \<Rightarrow> float \<Rightarrow> float" where
  "times_float (Fin a) (Fin b) = Fin (a * b)"
| "times_float NaN _ = NaN"
| "times_float _ NaN = NaN"
| "times_float PInf (Fin b) = (if b = 0 then NaN else if 0 < b then PInf else NInf)"
| "times_float NInf (Fin b) = (if b = 0 then NaN else if 0 < b then NInf else PInf)"
| "times_float (Fin a) PInf = (if a = 0 then NaN else if 0 < a then PInf else NInf)"
| "times_float (Fin a) NInf = (if a = 0 then NaN else if 0 < a then NInf else PInf)"
| "times_float PInf PInf = PInf"
| "times_float PInf NInf = NInf"
| "times_float NInf PInf = NInf"
| "times_float NInf NInf = PInf"

fun divide_float :: "float \<Rightarrow> float \<Rightarrow> float" where
  "divide_float (Fin a) (Fin b) =
     (if b \<noteq> 0 then Fin (a / b)
      else if a = 0 then NaN else if 0 < a then PInf else NInf)"
| "divide_float NaN _ = NaN"
| "divide_float _ NaN = NaN"
| "divide_float (Fin a) PInf = Fin 0"
| "divide_float (Fin a) NInf = Fin 0"
| "divide_float PInf (Fin b) = (if 0 \<le> b then PInf else NInf)"
| "divide_float NInf (Fin b) = (if 0 \<le> b then NInf else PInf)"
| "divide_float PInf PInf = NaN"
| "divide_float PInf NInf = NaN"
| "divide_float NInf PInf = NaN"
| "divide_float NInf NInf = NaN"

definition inverse_float :: "float \<Rightarrow> float" where
  "inverse_float a = divide (Fin 1) a"

instance ..

end

text \<open>\<^verbatim>\<open>sin\<close> and \<^verbatim>\<open>cos\<close> of \<^verbatim>\<open><cmath>\<close>: \<open>NaN\<close> at an infinity and at \<open>NaN\<close>.\<close>

fun sinf :: "float \<Rightarrow> float" where
  "sinf (Fin a) = Fin (sin a)"
| "sinf _ = NaN"

fun cosf :: "float \<Rightarrow> float" where
  "cosf (Fin a) = Fin (cos a)"
| "cosf _ = NaN"

text \<open>
  The implicit conversion of an \<^verbatim>\<open>int\<close> operand to \<^verbatim>\<open>float\<close> rounds the value to 24
  significant bits, a tie to the even significand: \<open>dropped_bits a\<close> is the number of low
  bits that \<open>a\<close> loses.  Every \<^verbatim>\<open>int\<close> up to \<open>2\<^sup>2\<^sup>4\<close> in absolute value is converted exactly.
\<close>

function dropped_bits :: "nat \<Rightarrow> nat" where
  "dropped_bits a = (if a < 16777216 then 0 else Suc (dropped_bits (a div 2)))"
  by pat_completeness auto
termination
  by (relation "measure id") auto

declare dropped_bits.simps [simp del]

definition round_significand :: "nat \<Rightarrow> nat" where
  "round_significand a =
     (let e = dropped_bits a; q = a div 2 ^ e; r = a mod 2 ^ e
      in (if 2 ^ e < 2 * r \<or> (2 * r = 2 ^ e \<and> odd q) then q + 1 else q) * 2 ^ e)"

definition float_of_int :: "int \<Rightarrow> float" where
  "float_of_int i = Fin (of_int (sgn i * int (round_significand (nat \<bar>i\<bar>))))"

text \<open>
  The conversion of an \<^verbatim>\<open>int\<close> operand to \<^verbatim>\<open>double\<close>, which has 53 significant bits, is
  exact.  The macro \<^verbatim>\<open>M_PI\<close> stands for the number \<open>\<pi>\<close>.
\<close>

definition double_of_int :: "int \<Rightarrow> float" where
  "double_of_int i = Fin (of_int i)"

definition M_PI :: float where
  "M_PI = Fin pi"

section \<open>\<^verbatim>\<open>vec3d\<close> and the projection\<close>

datatype vec3d = vec3d (x: float) (y: float) (z: float)

definition projectTo2D :: "vec3d \<Rightarrow> int \<Rightarrow> int \<Rightarrow> float \<Rightarrow> float \<Rightarrow> float \<Rightarrow> vec3d" where
  "projectTo2D this centerX centerY scale moveX moveY =
     (let fov = Fin 70;
          aspectRatio = Fin 16 / Fin 9;
          projectedX = x this / (Fin 1 + z this / (fov * scale));
          projectedY = y this / (Fin 1 + z this / (fov * scale));
          projectedX = projectedX * aspectRatio;
          projectedY = projectedY * aspectRatio
      in vec3d (float_of_int centerX + projectedX + moveX)
               (float_of_int centerY - projectedY + moveY)
               (z this))"

datatype triangle = triangle (p1: vec3d) (p2: vec3d) (p3: vec3d)

section \<open>The sphere\<close>

record Sphere =
  radius :: float
  latitudeSteps :: int
  longitudeSteps :: int
  vertices :: "vec3d list"
  triangles :: "triangle list"

subsection \<open>\<^verbatim>\<open>generateVertices\<close>\<close>

text \<open>
  The two nested \<^verbatim>\<open>for\<close> loops, inner loop first.  Each takes the object and the loop
  counter, and returns the object at the end of the loop, or \<open>None\<close> when the increment
  of its counter overflows.  The two angles are computed in \<^verbatim>\<open>double\<close>.  The locals
  \<^verbatim>\<open>x\<close>, \<^verbatim>\<open>y\<close> and \<^verbatim>\<open>z\<close> of the source are \<open>vx\<close>, \<open>vy\<close> and \<open>vz\<close> here and in \<^verbatim>\<open>rotate\<close>: \<open>x\<close>,
  \<open>y\<close> and \<open>z\<close> are the fields of \<^verbatim>\<open>vec3d\<close>.
\<close>

function generateVertices_lon :: "Sphere \<Rightarrow> float \<Rightarrow> float \<Rightarrow> int \<Rightarrow> Sphere option" where
  "generateVertices_lon this sinTheta cosTheta lon =
     (if lon \<le> longitudeSteps this then
        (let phi = Fin 2 * M_PI * double_of_int lon / double_of_int (longitudeSteps this);
             sinPhi = sinf phi;
             cosPhi = cosf phi;
             vx = radius this * sinTheta * cosPhi;
             vy = radius this * cosTheta;
             vz = radius this * sinTheta * sinPhi;
             this = this\<lparr>vertices := vertices this @ [vec3d vx vy vz]\<rparr>
         in do {
              lon \<leftarrow> checked (lon + 1);
              generateVertices_lon this sinTheta cosTheta lon
            })
      else Some this)"
  by pat_completeness auto
termination
  by (relation "measure (\<lambda>(this, st, ct, lon). nat (longitudeSteps this + 1 - lon))")
     (auto simp: checked_def split: if_splits)

declare generateVertices_lon.simps [simp del]

lemma generateVertices_lon_steps:
  "generateVertices_lon this st ct lon = Some this' \<Longrightarrow>
   latitudeSteps this' = latitudeSteps this \<and> longitudeSteps this' = longitudeSteps this \<and>
   radius this' = radius this \<and> triangles this' = triangles this"
proof (induction "nat (longitudeSteps this + 1 - lon)" arbitrary: this lon)
  case 0
  then show ?case by (simp add: generateVertices_lon.simps[of this st ct lon])
next
  case (Suc k)
  from Suc.hyps(2) have le: "lon \<le> longitudeSteps this" by simp
  from Suc.prems obtain vs where
    rec: "generateVertices_lon (this\<lparr>vertices := vs\<rparr>) st ct (lon + 1) = Some this'"
    by (auto simp: generateVertices_lon.simps[of this st ct lon] le Let_def checked_def
          split: bind_splits if_splits)
  have "k = nat (longitudeSteps (this\<lparr>vertices := vs\<rparr>) + 1 - (lon + 1))"
    using Suc.hyps(2) by simp
  from Suc.hyps(1)[OF this rec] show ?case by simp
qed

function generateVertices_lat :: "Sphere \<Rightarrow> int \<Rightarrow> Sphere option" where
  "generateVertices_lat this lat =
     (if lat \<le> latitudeSteps this then
        (let theta = M_PI * double_of_int lat / double_of_int (latitudeSteps this);
             sinTheta = sinf theta;
             cosTheta = cosf theta
         in do {
              this \<leftarrow> generateVertices_lon this sinTheta cosTheta 0;
              lat \<leftarrow> checked (lat + 1);
              generateVertices_lat this lat
            })
      else Some this)"
  by pat_completeness auto
termination
  by (relation "measure (\<lambda>(this, lat). nat (latitudeSteps this + 1 - lat))")
     (auto simp: checked_def split: if_splits dest: generateVertices_lon_steps)

declare generateVertices_lat.simps [simp del]

definition generateVertices :: "Sphere \<Rightarrow> Sphere option" where
  "generateVertices this = generateVertices_lat (this\<lparr>vertices := []\<rparr>) 0"

subsection \<open>\<^verbatim>\<open>generateIndices\<close>\<close>

text \<open>
  \<^verbatim>\<open>vertices[i]\<close> with an \<^verbatim>\<open>int\<close> index: \<^verbatim>\<open>std::vector::operator[]\<close> has no bounds check, an
  index outside the buffer is undefined behaviour.  The model returns \<open>None\<close> there, and
  so does every operation that reads the buffer.  The counters of the two loops stay
  below the step counts.  The four indices are computed in the integers: they are values
  of \<^verbatim>\<open>int\<close> as long as the vertex buffer has less than \<open>2\<^sup>3\<^sup>1\<close> entries.
\<close>

definition subscript :: "'a list \<Rightarrow> int \<Rightarrow> 'a option" where
  "subscript xs i = (if 0 \<le> i \<and> i < int (length xs) then Some (xs ! nat i) else None)"

function generateIndices_lon :: "Sphere \<Rightarrow> int \<Rightarrow> int \<Rightarrow> Sphere option" where
  "generateIndices_lon this lat lon =
     (if lon < longitudeSteps this then
        (let first = lat * (longitudeSteps this + 1) + lon;
             second = first + longitudeSteps this + 1
         in do {
              a1 \<leftarrow> subscript (vertices this) first;
              a2 \<leftarrow> subscript (vertices this) second;
              a3 \<leftarrow> subscript (vertices this) (first + 1);
              let this = this\<lparr>triangles := triangles this @ [triangle a1 a2 a3]\<rparr>;
              b1 \<leftarrow> subscript (vertices this) second;
              b2 \<leftarrow> subscript (vertices this) (second + 1);
              b3 \<leftarrow> subscript (vertices this) (first + 1);
              let this = this\<lparr>triangles := triangles this @ [triangle b1 b2 b3]\<rparr>;
              generateIndices_lon this lat (lon + 1)
            })
      else Some this)"
  by pat_completeness auto
termination
  by (relation "measure (\<lambda>(this, lat, lon). nat (longitudeSteps this - lon))") auto

declare generateIndices_lon.simps [simp del]

lemma generateIndices_lon_steps:
  "generateIndices_lon this lat lon = Some this' \<Longrightarrow>
   latitudeSteps this' = latitudeSteps this \<and> longitudeSteps this' = longitudeSteps this \<and>
   radius this' = radius this \<and> vertices this' = vertices this"
proof (induction "nat (longitudeSteps this - lon)" arbitrary: this lon)
  case 0
  then show ?case by (simp add: generateIndices_lon.simps[of this lat lon])
next
  case (Suc k)
  from Suc.hyps(2) have lt: "lon < longitudeSteps this" by simp
  from Suc.prems obtain ts where
    rec: "generateIndices_lon (this\<lparr>triangles := ts\<rparr>) lat (lon + 1) = Some this'"
    by (auto simp: generateIndices_lon.simps[of this lat lon] lt Let_def split: bind_splits)
  have "k = nat (longitudeSteps (this\<lparr>triangles := ts\<rparr>) - (lon + 1))"
    using Suc.hyps(2) by simp
  from Suc.hyps(1)[OF this rec] show ?case by simp
qed

function generateIndices_lat :: "Sphere \<Rightarrow> int \<Rightarrow> Sphere option" where
  "generateIndices_lat this lat =
     (if lat < latitudeSteps this then
        do {
          this \<leftarrow> generateIndices_lon this lat 0;
          generateIndices_lat this (lat + 1)
        }
      else Some this)"
  by pat_completeness auto
termination
  by (relation "measure (\<lambda>(this, lat). nat (latitudeSteps this - lat))")
     (auto dest: generateIndices_lon_steps)

declare generateIndices_lat.simps [simp del]

definition generateIndices :: "Sphere \<Rightarrow> Sphere option" where
  "generateIndices this = generateIndices_lat (this\<lparr>triangles := []\<rparr>) 0"

subsection \<open>Constructor, \<^verbatim>\<open>rotate\<close> and \<^verbatim>\<open>getTriangles\<close>\<close>

definition new_Sphere :: "float \<Rightarrow> int \<Rightarrow> int \<Rightarrow> Sphere option" where
  "new_Sphere r l n =
     do {
       this \<leftarrow> generateVertices
         \<lparr>radius = r, latitudeSteps = l, longitudeSteps = n, vertices = [], triangles = []\<rparr>;
       generateIndices this
     }"



definition getTriangles :: "Sphere \<Rightarrow> triangle list" where
  "getTriangles this = triangles this"

section \<open>The rasterizer\<close>

text \<open>
  \<^verbatim>\<open>SetPixel\<close> belongs to the windowing system.  A device context of the model is the
  list of the \<^verbatim>\<open>SetPixel\<close> calls made on it, the first call first: the pixel and its colour.
\<close>

type_synonym COLORREF = nat
type_synonym HDC = "(int \<times> int \<times> COLORREF) list"

definition SetPixel :: "HDC \<Rightarrow> int \<Rightarrow> int \<Rightarrow> COLORREF \<Rightarrow> HDC" where
  "SetPixel hdc px py color = hdc @ [(px, py, color)]"

definition DrawPixel :: "HDC \<Rightarrow> int \<Rightarrow> int \<Rightarrow> COLORREF \<Rightarrow> HDC" where
  "DrawPixel hdc px py color = SetPixel hdc px py color"

text \<open>
  The \<^verbatim>\<open>while (true)\<close> loop of \<^verbatim>\<open>DrawLine\<close>, on the variables it reads and writes.  The
  result is \<open>None\<close> when the loop does not end, and when one of its computations
  overflows.
\<close>

partial_function (option) DrawLine_loop ::
  "HDC \<Rightarrow> int \<Rightarrow> int \<Rightarrow> int \<Rightarrow> int \<Rightarrow> int \<Rightarrow> int \<Rightarrow> int \<Rightarrow> int \<Rightarrow> int \<Rightarrow> COLORREF \<Rightarrow> HDC option" where
  "DrawLine_loop hdc x1 y1 x2 y2 dx dy sx sy err color =
     (let hdc = DrawPixel hdc x1 y1 color
      in if x1 = x2 \<and> y1 = y2 then Some hdc
         else do {
           e2 \<leftarrow> checked (2 * err);
           (err, x1) \<leftarrow>
             (if e2 \<ge> dy then do {
                err \<leftarrow> checked (err + dy); x1 \<leftarrow> checked (x1 + sx); Some (err, x1) }
              else Some (err, x1));
           (err, y1) \<leftarrow>
             (if e2 \<le> dx then do {
                err \<leftarrow> checked (err + dx); y1 \<leftarrow> checked (y1 + sy); Some (err, y1) }
              else Some (err, y1));
           DrawLine_loop hdc x1 y1 x2 y2 dx dy sx sy err color
         })"

text \<open>
  \<^verbatim>\<open>abs\<close> of \<^verbatim>\<open><cstdlib>\<close> overflows at \<^verbatim>\<open>INT_MIN\<close>, and so does the negation.
\<close>

definition DrawLine :: "HDC \<Rightarrow> int \<Rightarrow> int \<Rightarrow> int \<Rightarrow> int \<Rightarrow> COLORREF \<Rightarrow> HDC option" where
  "DrawLine hdc x1 y1 x2 y2 color =
     do {
       d \<leftarrow> checked (x2 - x1);
       dx \<leftarrow> checked \<bar>d\<bar>;
       let sx = (if x1 < x2 then 1 else - 1);
       d \<leftarrow> checked (y2 - y1);
       d \<leftarrow> checked \<bar>d\<bar>;
       dy \<leftarrow> checked (- d);
       let sy = (if y1 < y2 then 1 else - 1);
       err \<leftarrow> checked (dx + dy);
       DrawLine_loop hdc x1 y1 x2 y2 dx dy sx sy err color
     }"

section \<open>Notions used in the statements\<close>

subsection \<open>The buffers in closed form\<close>

text \<open>
  The vertex that \<^verbatim>\<open>generateVertices\<close> computes for the pair \<open>(lat, lon)\<close>, and the buffer of
  all of them in latitude-major order.
\<close>

definition vertex_at :: "float \<Rightarrow> int \<Rightarrow> int \<Rightarrow> int \<Rightarrow> int \<Rightarrow> vec3d" where
  "vertex_at r l n lat lon =
     (let theta = M_PI * double_of_int lat / double_of_int l;
          phi = Fin 2 * M_PI * double_of_int lon / double_of_int n
      in vec3d (r * sinf theta * cosf phi) (r * cosf theta) (r * sinf theta * sinf phi))"

definition vertex_grid :: "float \<Rightarrow> int \<Rightarrow> int \<Rightarrow> vec3d list" where
  "vertex_grid r l n = concat (map (\<lambda>lat. map (\<lambda>lon. vertex_at r l n lat lon) [0..n]) [0..l])"

text \<open>
  The two triangles of the cell \<open>(lat, lon)\<close>, read from a vertex buffer \<open>vs\<close>, and the
  triangle list as a function of the vertex buffer and the step counts: the cells of
  latitude band 0 first, each band by increasing longitude.
\<close>

definition quad :: "vec3d list \<Rightarrow> int \<Rightarrow> int \<Rightarrow> int \<Rightarrow> triangle list" where
  "quad vs n lat lon =
     (let first = lat * (n + 1) + lon;
          second = first + n + 1
      in [triangle (vs ! nat first) (vs ! nat second) (vs ! nat (first + 1)),
          triangle (vs ! nat second) (vs ! nat (second + 1)) (vs ! nat (first + 1))])"

definition topology :: "vec3d list \<Rightarrow> int \<Rightarrow> int \<Rightarrow> triangle list" where
  "topology vs l n =
     concat (map (\<lambda>lat. concat (map (\<lambda>lon. quad vs n lat lon) [0..n - 1])) [0..l - 1])"


text \<open>The vertex buffer has one entry for every pair \<open>(lat, lon)\<close> of the two loops.\<close>

definition sized :: "Sphere \<Rightarrow> bool" where
  "sized this =
     (length (vertices this) = nat (latitudeSteps this + 1) * nat (longitudeSteps this + 1))"

text \<open>
  The step counts with which the two loops of \<^verbatim>\<open>generateVertices\<close> end: the loop over the
  latitudes is not entered, or neither counter reaches \<^verbatim>\<open>INT_MAX\<close>.
\<close>

definition steps_in_range :: "int \<Rightarrow> int \<Rightarrow> bool" where
  "steps_in_range l n = (l < 0 \<or> (l < INT_MAX \<and> n < INT_MAX))"

subsection \<open>The states of a sphere\<close>





subsection \<open>Rotations\<close>







subsection \<open>Lines\<close>

text \<open>
  Consecutive pixels of a line: the next pixel is one step of \<open>sx\<close> in \<open>x\<close>, one step of
  \<open>sy\<close> in \<open>y\<close>, or both.
\<close>

fun step_ok :: "int \<Rightarrow> int \<Rightarrow> int \<times> int \<times> COLORREF \<Rightarrow> int \<times> int \<times> COLORREF \<Rightarrow> bool" where
  "step_ok sx sy (a, b, c) (a', b', c') =
     ((a' = a + sx \<and> b' = b) \<or> (a' = a \<and> b' = b + sy) \<or> (a' = a + sx \<and> b' = b + sy))"

fun steps_ok :: "int \<Rightarrow> int \<Rightarrow> (int \<times> int \<times> COLORREF) list \<Rightarrow> bool" where
  "steps_ok sx sy (p # q # ps) = (step_ok sx sy p q \<and> steps_ok sx sy (q # ps))"
| "steps_ok sx sy ps = True"

section \<open>Properties of the projection\<close>

text \<open>The conversion of an \<^verbatim>\<open>int\<close> of at most 24 bits is exact.\<close>

lemma float_of_int_exact: "\<bar>i\<bar> \<le> 16777216 \<Longrightarrow> float_of_int i = Fin (of_int i)"
proof (cases "\<bar>i\<bar> = 16777216")
  case True
  then consider "i = 16777216" | "i = - 16777216" by linarith
  then show ?thesis
  proof cases
    case 1
    show ?thesis unfolding 1
      by (simp add: float_of_int_def round_significand_def dropped_bits.simps Let_def)
  next
    case 2
    show ?thesis unfolding 2
      by (simp add: float_of_int_def round_significand_def dropped_bits.simps Let_def)
  qed
next
  case False
  assume "\<bar>i\<bar> \<le> 16777216"
  with False have lt: "nat \<bar>i\<bar> < 16777216" by simp
  have "dropped_bits (nat \<bar>i\<bar>) = 0"
    using lt by (subst dropped_bits.simps) simp
  then have "round_significand (nat \<bar>i\<bar>) = nat \<bar>i\<bar>"
    by (simp add: round_significand_def Let_def)
  then show ?thesis
    by (simp add: float_of_int_def sgn_if)
qed

lemma float_of_int_Fin: "\<exists>a. float_of_int i = Fin a"
  by (simp add: float_of_int_def)

text \<open>
  C1, as stated, fails: at \<open>scale = 0\<close> the quotient \<open>z / (fov * scale)\<close> of the point
  (0,0,0) is \<open>0 / 0\<close>, and the projected point is (NaN, NaN, 0), not (centerX, centerY).
  And \<open>centerX = 16777217\<close> is not a value of \<^verbatim>\<open>float\<close>: the conversion in
  \<^verbatim>\<open>centerX + projectedX\<close> rounds it to 16777216.
\<close>

theorem projectTo2D_origin_counterexample:
  "projectTo2D (vec3d (Fin 0) (Fin 0) (Fin 0)) 400 300 (Fin 0) (Fin 0) (Fin 0) =
     vec3d NaN NaN (Fin 0) \<and>
   projectTo2D (vec3d (Fin 0) (Fin 0) (Fin 0)) 400 300 (Fin 0) (Fin 0) (Fin 0) \<noteq>
     vec3d (float_of_int 400) (float_of_int 300) (Fin 0) \<and>
   projectTo2D (vec3d (Fin 0) (Fin 0) (Fin 0)) 16777217 300 (Fin 1) (Fin 0) (Fin 0) =
     vec3d (Fin 16777216) (Fin 300) (Fin 0)"
  by (simp add: projectTo2D_def float_of_int_def round_significand_def dropped_bits.simps
        minus_float_def Let_def)

text \<open>
  C1, amended.  For every point and arguments \<^verbatim>\<open>projectTo2D\<close> returns the vector
  \<open>(centerX + (x / (1 + z / (70 * scale))) * (16/9) + moveX,
     centerY - (y / (1 + z / (70 * scale))) * (16/9) + moveY, z)\<close>
  of the float operations, \<open>centerX\<close> and \<open>centerY\<close> converted to \<^verbatim>\<open>float\<close>, with the \<open>z\<close>
  component unchanged.  The point (0,0,0) with \<open>moveX = moveY = 0\<close> and a scale other than
  0 and \<open>NaN\<close> is mapped to \<open>(centerX, centerY, 0)\<close> with the two centres converted to
  \<^verbatim>\<open>float\<close>: to exactly \<open>(centerX, centerY, 0)\<close> when neither centre exceeds \<open>2\<^sup>2\<^sup>4\<close> in
  absolute value.
\<close>

theorem projectTo2D_formula:
  "projectTo2D this centerX centerY scale moveX moveY =
     vec3d (float_of_int centerX + x this / (Fin 1 + z this / (Fin 70 * scale)) * (Fin 16 / Fin 9) + moveX)
           (float_of_int centerY - y this / (Fin 1 + z this / (Fin 70 * scale)) * (Fin 16 / Fin 9) + moveY)
           (z this) \<and>
   (scale \<noteq> Fin 0 \<and> scale \<noteq> NaN \<longrightarrow>
      projectTo2D (vec3d (Fin 0) (Fin 0) (Fin 0)) centerX centerY scale (Fin 0) (Fin 0) =
        vec3d (float_of_int centerX) (float_of_int centerY) (Fin 0)) \<and>
   (scale \<noteq> Fin 0 \<and> scale \<noteq> NaN \<and> \<bar>centerX\<bar> \<le> 16777216 \<and> \<bar>centerY\<bar> \<le> 16777216 \<longrightarrow>
      projectTo2D (vec3d (Fin 0) (Fin 0) (Fin 0)) centerX centerY scale (Fin 0) (Fin 0) =
        vec3d (Fin (of_int centerX)) (Fin (of_int centerY)) (Fin 0))"
proof -
  obtain a b where ab: "float_of_int centerX = Fin a" "float_of_int centerY = Fin b"
    using float_of_int_Fin by blast
  have formula: "projectTo2D this centerX centerY scale moveX moveY =
     vec3d (float_of_int centerX + x this / (Fin 1 + z this / (Fin 70 * scale)) * (Fin 16 / Fin 9) + moveX)
           (float_of_int centerY - y this / (Fin 1 + z this / (Fin 70 * scale)) * (Fin 16 / Fin 9) + moveY)
           (z this)"
    by (simp add: projectTo2D_def Let_def)
  have origin: "projectTo2D (vec3d (Fin 0) (Fin 0) (Fin 0)) centerX centerY scale (Fin 0) (Fin 0) =
        vec3d (float_of_int centerX) (float_of_int centerY) (Fin 0)"
    if "scale \<noteq> Fin 0" "scale \<noteq> NaN"
    using that by (cases scale) (simp_all add: projectTo2D_def ab minus_float_def Let_def)
  from formula origin show ?thesis
    by (simp add: float_of_int_exact)
qed

theorem projectTo2D_formula_witness:
  "projectTo2D (vec3d (Fin 0) (Fin 0) (Fin 0)) 400 300 (Fin 8) (Fin 0) (Fin 0) =
     vec3d (Fin 400) (Fin 300) (Fin 0) \<and>
   projectTo2D (vec3d (Fin 0) (Fin 0) (Fin 0)) 400 300 PInf (Fin 0) (Fin 0) =
     vec3d (Fin 400) (Fin 300) (Fin 0)"
  using projectTo2D_formula[of "vec3d (Fin 0) (Fin 0) (Fin 0)" 400 300 "Fin 8" "Fin 0" "Fin 0",
      THEN conjunct2, THEN conjunct2]
    projectTo2D_formula[of "vec3d (Fin 0) (Fin 0) (Fin 0)" 400 300 PInf "Fin 0" "Fin 0",
      THEN conjunct2, THEN conjunct2]
  by simp

section \<open>Properties of the sphere\<close>

subsection \<open>The vertex buffer\<close>

lemma checked_Some: "int32 v \<Longrightarrow> checked v = Some v"
  and checked_None: "\<not> int32 v \<Longrightarrow> checked v = None"
  by (simp_all add: checked_def)

lemma generateVertices_lon_closed:
  assumes "longitudeSteps this < INT_MAX"
  shows "0 \<le> lon \<Longrightarrow>
   generateVertices_lon this (sinf (M_PI * double_of_int lat / double_of_int l))
       (cosf (M_PI * double_of_int lat / double_of_int l)) lon =
   Some (this\<lparr>vertices := vertices this @
      map (\<lambda>lon. vertex_at (radius this) l (longitudeSteps this) lat lon) [lon..longitudeSteps this]\<rparr>)"
  using assms
proof (induction "nat (longitudeSteps this + 1 - lon)" arbitrary: this lon)
  case 0
  then show ?case
    by (simp add: generateVertices_lon.simps[of this _ _ lon])
next
  case (Suc k)
  then have le: "lon \<le> longitudeSteps this" by simp
  let ?s1 = "this\<lparr>vertices := vertices this @ [vertex_at (radius this) l (longitudeSteps this) lat lon]\<rparr>"
  have k: "k = nat (longitudeSteps ?s1 + 1 - (lon + 1))" using Suc.hyps(2) by simp
  have c: "checked (lon + 1) = Some (lon + 1)"
    using le Suc.prems by (simp add: checked_def int32_def INT_MAX_def INT_MIN_def)
  have "0 \<le> lon + 1" "longitudeSteps ?s1 < INT_MAX" using Suc.prems by simp_all
  note IH = Suc.hyps(1)[OF k this]
  show ?case
    apply (subst generateVertices_lon.simps)
    apply (simp add: le Let_def c)
    apply (subst upto_rec1[OF le])
    using IH
    apply (simp add: vertex_at_def Let_def)
    done
qed

lemma generateVertices_lon_overflow:
  assumes "INT_MAX \<le> longitudeSteps this"
  shows "0 \<le> lon \<Longrightarrow> lon \<le> INT_MAX \<Longrightarrow> generateVertices_lon this st ct lon = None"
  using assms
proof (induction "nat (INT_MAX - lon)" arbitrary: this lon)
  case 0
  then have "lon = INT_MAX" by simp
  then show ?case
    using 0 by (subst generateVertices_lon.simps)
      (simp add: Let_def checked_def int32_def INT_MAX_def)
next
  case (Suc k)
  then have lt: "lon < INT_MAX" by simp
  then have le: "lon \<le> longitudeSteps this" using Suc.prems by simp
  have c: "checked (lon + 1) = Some (lon + 1)"
    using lt Suc.prems by (simp add: checked_def int32_def INT_MAX_def INT_MIN_def)
  have k: "k = nat (INT_MAX - (lon + 1))" using Suc.hyps(2) by simp
  show ?case
    apply (subst generateVertices_lon.simps)
    apply (simp add: le Let_def c)
    apply (rule Suc.hyps(1)[OF k])
    using lt Suc.prems apply simp_all
    done
qed

lemma generateVertices_lat_closed:
  assumes "latitudeSteps this < INT_MAX" "longitudeSteps this < INT_MAX"
  shows "0 \<le> lat \<Longrightarrow> generateVertices_lat this lat =
   Some (this\<lparr>vertices := vertices this @
      concat (map (\<lambda>lat. map (\<lambda>lon. vertex_at (radius this) (latitudeSteps this) (longitudeSteps this) lat lon)
                     [0..longitudeSteps this]) [lat..latitudeSteps this])\<rparr>)"
  using assms
proof (induction "nat (latitudeSteps this + 1 - lat)" arbitrary: this lat)
  case 0
  then show ?case
    by (simp add: generateVertices_lat.simps[of this lat])
next
  case (Suc k)
  then have le: "lat \<le> latitudeSteps this" by simp
  let ?s1 = "this\<lparr>vertices := vertices this @
      map (\<lambda>lon. vertex_at (radius this) (latitudeSteps this) (longitudeSteps this) lat lon) [0..longitudeSteps this]\<rparr>"
  have k: "k = nat (latitudeSteps ?s1 + 1 - (lat + 1))" using Suc.hyps(2) by simp
  have c: "checked (lat + 1) = Some (lat + 1)"
    using le Suc.prems by (simp add: checked_def int32_def INT_MAX_def INT_MIN_def)
  have "0 \<le> lat + 1" "latitudeSteps ?s1 < INT_MAX" "longitudeSteps ?s1 < INT_MAX"
    using Suc.prems by simp_all
  note IH = Suc.hyps(1)[OF k this]
  show ?case
    apply (subst generateVertices_lat.simps)
    apply (simp add: le Let_def c generateVertices_lon_closed[OF Suc.prems(3)])
    apply (subst upto_rec1[OF le])
    using IH
    apply simp
    done
qed

lemma generateVertices_lat_overflow:
  assumes "INT_MAX \<le> latitudeSteps this" "longitudeSteps this < INT_MAX"
  shows "0 \<le> lat \<Longrightarrow> lat \<le> INT_MAX \<Longrightarrow> generateVertices_lat this lat = None"
  using assms
proof (induction "nat (INT_MAX - lat)" arbitrary: this lat)
  case 0
  then have "lat = INT_MAX" by simp
  then show ?case
    using 0 by (subst generateVertices_lat.simps)
      (simp add: Let_def checked_def int32_def INT_MAX_def generateVertices_lon_closed)
next
  case (Suc k)
  then have lt: "lat < INT_MAX" by simp
  then have le: "lat \<le> latitudeSteps this" using Suc.prems by simp
  have c: "checked (lat + 1) = Some (lat + 1)"
    using lt Suc.prems by (simp add: checked_def int32_def INT_MAX_def INT_MIN_def)
  have k: "k = nat (INT_MAX - (lat + 1))" using Suc.hyps(2) by simp
  show ?case
    apply (subst generateVertices_lat.simps)
    apply (simp add: le Let_def c generateVertices_lon_closed[OF Suc.prems(4)])
    apply (rule Suc.hyps(1)[OF k])
    using lt Suc.prems apply simp_all
    done
qed

lemma generateVertices_closed:
  "generateVertices this =
     (if steps_in_range (latitudeSteps this) (longitudeSteps this)
      then Some (this\<lparr>vertices :=
             vertex_grid (radius this) (latitudeSteps this) (longitudeSteps this)\<rparr>)
      else None)"
proof (cases "latitudeSteps this < 0")
  case True
  then show ?thesis
    by (simp add: generateVertices_def steps_in_range_def vertex_grid_def
          generateVertices_lat.simps[of _ 0])
next
  case neg: False
  show ?thesis
  proof (cases "longitudeSteps this < INT_MAX")
    case n: True
    show ?thesis
    proof (cases "latitudeSteps this < INT_MAX")
      case True
      with n show ?thesis
        by (simp add: generateVertices_def steps_in_range_def vertex_grid_def
              generateVertices_lat_closed)
    next
      case False
      with n neg show ?thesis
        by (simp add: generateVertices_def steps_in_range_def generateVertices_lat_overflow
              INT_MAX_def)
    qed
  next
    case False
    with neg have "generateVertices_lat (this\<lparr>vertices := []\<rparr>) 0 = None"
      by (subst generateVertices_lat.simps)
         (simp add: Let_def generateVertices_lon_overflow INT_MAX_def)
    with False neg show ?thesis
      by (simp add: generateVertices_def steps_in_range_def)
  qed
qed

lemma length_concat_upto:
  assumes "\<And>i. length (f i) = m"
  shows "length (concat (map f [a..b])) = nat (b - a + 1) * m"
proof (induction "nat (b - a + 1)" arbitrary: a)
  case 0
  then show ?case by simp
next
  case (Suc k)
  then have le: "a \<le> b" by simp
  have "k = nat (b - (a + 1) + 1)" using Suc.hyps(2) by simp
  moreover have "nat (b - a + 1) = Suc (nat (b - a))" using le by simp
  ultimately show ?case
    using Suc.hyps(1)[of "a + 1"] by (subst upto_rec1[OF le]) (simp add: assms)
qed

lemma nth_concat_upto:
  assumes "\<And>i. length (f i) = m"
  shows "a \<le> i \<Longrightarrow> i \<le> b \<Longrightarrow> j < m \<Longrightarrow>
         concat (map f [a..b]) ! (nat (i - a) * m + j) = f i ! j"
proof (induction "nat (i - a)" arbitrary: a)
  case 0
  then have "a = i" by simp
  with 0 show ?case
    by (subst upto_rec1) (simp_all add: nth_append assms)
next
  case (Suc k)
  then have lt: "a < i" by simp
  then have le: "a \<le> b" using Suc.prems by simp
  have k: "k = nat (i - (a + 1))" using Suc.hyps(2) by simp
  have "nat (i - a) = Suc (nat (i - (a + 1)))" using lt by simp
  then have idx: "nat (i - a) * m + j = m + (nat (i - (a + 1)) * m + j)"
    by simp
  from Suc.hyps(1)[OF k _ Suc.prems(2,3)] lt show ?case
    by (subst upto_rec1[OF le]) (simp add: idx nth_append assms)
qed

lemma length_vertex_grid:
  "0 \<le> l \<Longrightarrow> 0 \<le> n \<Longrightarrow> length (vertex_grid r l n) = nat ((l + 1) * (n + 1))"
  by (simp add: vertex_grid_def length_concat_upto[where m = "nat (n + 1)"] nat_mult_distrib)

lemma nth_vertex_grid:
  assumes "0 \<le> lat" "lat \<le> l" "0 \<le> lon" "lon \<le> n"
  shows "vertex_grid r l n ! nat (lat * (n + 1) + lon) = vertex_at r l n lat lon"
proof -
  have idx: "nat (lat * (n + 1) + lon) = nat (lat - 0) * nat (n + 1) + nat lon"
    using assms by (simp add: nat_add_distrib nat_mult_distrib)
  have "vertex_grid r l n ! nat (lat * (n + 1) + lon) =
        map (\<lambda>lon. vertex_at r l n lat lon) [0..n] ! nat lon"
    unfolding vertex_grid_def idx
    by (rule nth_concat_upto) (use assms in auto)
  also have "\<dots> = vertex_at r l n lat lon"
    using assms by (simp add: nth_upto)
  finally show ?thesis .
qed



subsection \<open>The triangle list\<close>

lemma generateIndices_lon_closed:
  assumes "0 \<le> lat"
    and "0 < longitudeSteps this \<Longrightarrow>
         (lat + 2) * (longitudeSteps this + 1) \<le> int (length (vertices this))"
  shows "0 \<le> lon \<Longrightarrow> generateIndices_lon this lat lon =
     Some (this\<lparr>triangles := triangles this @
        concat (map (\<lambda>lon. quad (vertices this) (longitudeSteps this) lat lon)
                  [lon..longitudeSteps this - 1])\<rparr>)"
  using assms
proof (induction "nat (longitudeSteps this - lon)" arbitrary: this lon)
  case 0
  then show ?case
    by (simp add: generateIndices_lon.simps[of this lat lon])
next
  case (Suc k)
  let ?n = "longitudeSteps this" and ?vs = "vertices this"
  from Suc.hyps(2) have lt: "lon < ?n" by simp
  then have le: "lon \<le> ?n - 1" by simp
  let ?first = "lat * (?n + 1) + lon"
  have lo: "0 \<le> ?first" using Suc.prems lt by simp
  have "(lat + 2) * (?n + 1) = lat * (?n + 1) + 2 * ?n + 2" by (simp add: algebra_simps)
  with Suc.prems(1,3) lt have hi: "?first + ?n + 1 + 1 < int (length ?vs)" by simp
  let ?s1 = "this\<lparr>triangles := triangles this @ quad ?vs ?n lat lon\<rparr>"
  have k: "k = nat (longitudeSteps ?s1 - (lon + 1))" using Suc.hyps(2) by simp
  have step: "generateIndices_lon this lat lon = generateIndices_lon ?s1 lat (lon + 1)"
    using lo hi lt Suc.prems(1)
    by (subst generateIndices_lon.simps) (simp add: Let_def subscript_def quad_def add_ac)
  have "generateIndices_lon ?s1 lat (lon + 1) =
     Some (?s1\<lparr>triangles := triangles ?s1 @
        concat (map (\<lambda>lon. quad (vertices ?s1) (longitudeSteps ?s1) lat lon)
                  [lon + 1..longitudeSteps ?s1 - 1])\<rparr>)"
    by (rule Suc.hyps(1)[OF k]) (use Suc.prems in simp_all)
  then show ?case
    unfolding step by (subst upto_rec1[OF le]) simp
qed

lemma generateIndices_lat_closed:
  assumes "0 < longitudeSteps this \<Longrightarrow>
      (latitudeSteps this + 1) * (longitudeSteps this + 1) \<le> int (length (vertices this))"
  shows "0 \<le> lat \<Longrightarrow> generateIndices_lat this lat =
     Some (this\<lparr>triangles := triangles this @
        concat (map (\<lambda>lat. concat (map (\<lambda>lon. quad (vertices this) (longitudeSteps this) lat lon)
                  [0..longitudeSteps this - 1])) [lat..latitudeSteps this - 1])\<rparr>)"
  using assms
proof (induction "nat (latitudeSteps this - lat)" arbitrary: this lat)
  case 0
  then show ?case
    by (simp add: generateIndices_lat.simps[of this lat])
next
  case (Suc k)
  let ?l = "latitudeSteps this" and ?n = "longitudeSteps this" and ?vs = "vertices this"
  from Suc.hyps(2) have lt: "lat < ?l" by simp
  then have le: "lat \<le> ?l - 1" by simp
  have bound: "(lat + 2) * (?n + 1) \<le> int (length ?vs)" if "0 < ?n"
  proof -
    have "(lat + 2) * (?n + 1) \<le> (?l + 1) * (?n + 1)"
      using lt that by (intro mult_right_mono) auto
    with Suc.prems(2)[OF that] show ?thesis by simp
  qed
  let ?s1 = "this\<lparr>triangles := triangles this @
        concat (map (\<lambda>lon. quad ?vs ?n lat lon) [0..?n - 1])\<rparr>"
  have inner: "generateIndices_lon this lat 0 = Some ?s1"
    using generateIndices_lon_closed[OF Suc.prems(1) bound, of 0] by simp
  have k: "k = nat (latitudeSteps ?s1 - (lat + 1))" using Suc.hyps(2) by simp
  have step: "generateIndices_lat this lat = generateIndices_lat ?s1 (lat + 1)"
    by (subst generateIndices_lat.simps) (simp add: lt inner)
  have "generateIndices_lat ?s1 (lat + 1) =
     Some (?s1\<lparr>triangles := triangles ?s1 @
        concat (map (\<lambda>lat. concat (map (\<lambda>lon. quad (vertices ?s1) (longitudeSteps ?s1) lat lon)
                  [0..longitudeSteps ?s1 - 1])) [lat + 1..latitudeSteps ?s1 - 1])\<rparr>)"
    by (rule Suc.hyps(1)[OF k]) (use Suc.prems in simp_all)
  then show ?case
    unfolding step by (subst upto_rec1[OF le]) simp
qed

lemma sized_bound:
  assumes "sized this" "0 < latitudeSteps this" "0 < longitudeSteps this"
  shows "int (length (vertices this)) = (latitudeSteps this + 1) * (longitudeSteps this + 1)"
  using assms by (simp add: sized_def nat_mult_distrib)

lemma generateIndices_closed:
  assumes "sized this"
  shows "generateIndices this =
     Some (this\<lparr>triangles := topology (vertices this) (latitudeSteps this) (longitudeSteps this)\<rparr>)"
proof (cases "0 < latitudeSteps this")
  case False
  then show ?thesis
    by (simp add: generateIndices_def topology_def
          generateIndices_lat.simps[of "this\<lparr>triangles := []\<rparr>" 0])
next
  case True
  let ?s0 = "this\<lparr>triangles := []\<rparr>"
  have "(latitudeSteps ?s0 + 1) * (longitudeSteps ?s0 + 1) \<le> int (length (vertices ?s0))"
    if "0 < longitudeSteps ?s0"
    using sized_bound[OF assms True] that by simp
  from generateIndices_lat_closed[of ?s0 0, OF this] show ?thesis
    by (simp add: generateIndices_def topology_def)
qed

lemma length_vertex_grid_general:
  "length (vertex_grid r l n) = nat (l + 1) * nat (n + 1)"
  by (simp add: vertex_grid_def length_concat_upto[where m = "nat (n + 1)"])


lemma new_Sphere_closed:
  "new_Sphere r l n =
     (if steps_in_range l n
      then Some \<lparr>radius = r, latitudeSteps = l, longitudeSteps = n,
                 vertices = vertex_grid r l n, triangles = topology (vertex_grid r l n) l n\<rparr>
      else None)"
proof (cases "steps_in_range l n")
  case True
  let ?s = "\<lparr>radius = r, latitudeSteps = l, longitudeSteps = n,
             vertices = vertex_grid r l n, triangles = []\<rparr>"
  have "sized ?s" by (simp add: sized_def length_vertex_grid_general)
  from generateIndices_closed[OF this] True show ?thesis
    by (simp add: new_Sphere_def generateVertices_closed)
next
  case False
  then show ?thesis
    by (simp add: new_Sphere_def generateVertices_closed)
qed






lemma topology_empty: "l \<le> 0 \<or> n \<le> 0 \<Longrightarrow> topology vs l n = []"
  by (auto simp: topology_def)










text \<open>
  C9, as stated, fails.  With \<^verbatim>\<open>latitudeSteps = INT_MAX\<close> the test \<^verbatim>\<open>lat <= latitudeSteps\<close>
  of \<^verbatim>\<open>generateVertices\<close> never fails, and the increment of \<^verbatim>\<open>lat\<close> overflows: the constructor
  \<^verbatim>\<open>Sphere(1, INT_MAX, -1)\<close> does not return an object.  So does \<^verbatim>\<open>Sphere(1, 0, INT_MAX)\<close>,
  in the loop over the longitudes.
\<close>

theorem new_Sphere_overflow_counterexample:
  "new_Sphere (Fin 1) 2147483647 (- 1) = None \<and> new_Sphere (Fin 1) 0 2147483647 = None"
  by (simp add: new_Sphere_closed steps_in_range_def INT_MAX_def)

text \<open>
  C9, amended.  With \<open>l \<le> 0\<close> or \<open>n \<le> 0\<close>, and with both step counts below \<^verbatim>\<open>INT_MAX\<close> or
  \<open>l\<close> negative, the constructor returns an object, for every radius, and \<^verbatim>\<open>getTriangles\<close>
  of this object is the empty list.  With other step counts \<open>l \<le> 0\<close> or \<open>n \<le> 0\<close> the
  constructor does not return an object.
\<close>

theorem new_Sphere_degenerate:
  assumes "l \<le> 0 \<or> n \<le> 0"
  shows "(l < 0 \<or> (l < INT_MAX \<and> n < INT_MAX) \<longrightarrow>
            (\<exists>s. new_Sphere r l n = Some s \<and> getTriangles s = [])) \<and>
         (\<not> (l < 0 \<or> (l < INT_MAX \<and> n < INT_MAX)) \<longrightarrow> new_Sphere r l n = None)"
  using assms
  by (simp add: new_Sphere_closed steps_in_range_def getTriangles_def topology_empty)

theorem new_Sphere_degenerate_witness:
  "(\<exists>s. new_Sphere (Fin 1) 0 4 = Some s \<and> getTriangles s = []) \<and>
   (\<exists>s. new_Sphere (Fin 1) 4 0 = Some s \<and> getTriangles s = []) \<and>
   (\<exists>s. new_Sphere (Fin 1) (- 1) (- 1) = Some s \<and> getTriangles s = []) \<and>
   new_Sphere (Fin 1) 2147483647 0 = None"
  using new_Sphere_degenerate[of 0 4 "Fin 1"] new_Sphere_degenerate[of 4 0 "Fin 1"]
    new_Sphere_degenerate[of "- 1" "- 1" "Fin 1"] new_Sphere_degenerate[of 2147483647 0 "Fin 1"]
  by (simp add: INT_MAX_def)

subsection \<open>Rotation\<close>
















subsection \<open>The triangle list agrees with the vertex buffer\<close>







section \<open>Properties of the rasterizer\<close>

text \<open>
  The error term of the loop, \<open>p\<close> steps in \<open>x\<close> and \<open>q\<close> steps in \<open>y\<close> before the endpoint of
  a line of \<open>a\<close> by \<open>b\<close> steps, is \<open>a - b + b * p - a * q\<close>.  It lets the loop step in \<open>x\<close>
  only when a step in \<open>x\<close> remains, and in \<open>y\<close> only when a step in \<open>y\<close> remains.
\<close>

lemma DrawLine_no_overshoot:
  fixes a b p q err :: int
  assumes "0 \<le> a" "0 \<le> b" "0 \<le> p" "p \<le> a" "0 \<le> q" "q \<le> b"
    and "err = a - b + b * p - a * q" and "\<not> (p = 0 \<and> q = 0)"
  shows "(2 * err \<ge> - b \<longrightarrow> 1 \<le> p) \<and> (2 * err \<le> a \<longrightarrow> 1 \<le> q)"
proof (intro conjI impI)
  assume h: "2 * err \<ge> - b"
  show "1 \<le> p"
  proof (rule ccontr)
    assume "\<not> 1 \<le> p"
    then have p0: "p = 0" using assms by simp
    then have q1: "1 \<le> q" using assms by simp
    have "a * 1 \<le> a * q" using q1 assms by (intro mult_left_mono) auto
    with h p0 q1 assms show False by simp
  qed
next
  assume h: "2 * err \<le> a"
  show "1 \<le> q"
  proof (rule ccontr)
    assume "\<not> 1 \<le> q"
    then have q0: "q = 0" using assms by simp
    then have p1: "1 \<le> p" using assms by simp
    have "b * 1 \<le> b * p" using p1 assms by (intro mult_left_mono) auto
    with h q0 p1 assms show False by simp
  qed
qed

text \<open>
  One iteration of the loop that does not overflow.
\<close>

lemma DrawLine_loop_step:
  assumes "\<not> (x1 = x2 \<and> y1 = y2)" "int32 (2 * err)"
    and "2 * err \<ge> dy \<Longrightarrow> int32 (err + dy) \<and> int32 (x1 + sx)"
    and "2 * err \<le> dx \<Longrightarrow>
           int32 ((if 2 * err \<ge> dy then err + dy else err) + dx) \<and> int32 (y1 + sy)"
  shows "DrawLine_loop hdc x1 y1 x2 y2 dx dy sx sy err color =
         DrawLine_loop (hdc @ [(x1, y1, color)])
           (if 2 * err \<ge> dy then x1 + sx else x1) (if 2 * err \<le> dx then y1 + sy else y1)
           x2 y2 dx dy sx sy
           ((if 2 * err \<ge> dy then err + dy else err) + (if 2 * err \<le> dx then dx else 0)) color"
  using assms
  by (subst DrawLine_loop.simps) (auto simp: checked_def DrawPixel_def SetPixel_def Let_def)

text \<open>
  The loop from a point that lies \<open>p\<close> steps in \<open>x\<close> and \<open>q\<close> steps in \<open>y\<close> before the
  endpoint, with the error term that the loop has there, on a line of at most 715827882
  steps in each coordinate whose points have \<^verbatim>\<open>int\<close> coordinates.  Twice the error term
  stays between \<open>- 3 * b\<close> and \<open>3 * a\<close>, so no computation overflows.  Every iteration makes
  a step, and none passes the endpoint, so the remaining \<open>p + q\<close> steps decrease.
\<close>

lemma DrawLine_loop_ends:
  assumes "0 \<le> a" "0 \<le> b" "a \<le> 715827882" "b \<le> 715827882"
    and "sx = 1 \<or> sx = - 1" "sy = 1 \<or> sy = - 1"
    and box_x: "\<And>k. 0 \<le> k \<Longrightarrow> k \<le> a \<Longrightarrow> int32 (x2 - sx * k)"
    and box_y: "\<And>k. 0 \<le> k \<Longrightarrow> k \<le> b \<Longrightarrow> int32 (y2 - sy * k)"
  shows "0 \<le> p \<Longrightarrow> p \<le> a \<Longrightarrow> 0 \<le> q \<Longrightarrow> q \<le> b \<Longrightarrow> n = nat (p + q) \<Longrightarrow>
     - (3 * b) \<le> 2 * (a - b + b * p - a * q) \<Longrightarrow> 2 * (a - b + b * p - a * q) \<le> 3 * a \<Longrightarrow>
     \<exists>tr. DrawLine_loop hdc (x2 - sx * p) (y2 - sy * q) x2 y2 a (- b) sx sy
             (a - b + b * p - a * q) color = Some (hdc @ (x2 - sx * p, y2 - sy * q, color) # tr)
        \<and> last ((x2 - sx * p, y2 - sy * q, color) # tr) = (x2, y2, color)
        \<and> steps_ok sx sy ((x2 - sx * p, y2 - sy * q, color) # tr)"
proof (induction n arbitrary: p q hdc rule: less_induct)
  case (less n)
  define err where "err = a - b + b * p - a * q"
  let ?x = "x2 - sx * p" and ?y = "y2 - sy * q"
  let ?hdc = "hdc @ [(?x, ?y, color)]"
  note lo = less.prems(6)[folded err_def] and hi = less.prems(7)[folded err_def]
  show ?case
  proof (cases "p = 0 \<and> q = 0")
    case True
    then show ?thesis
      by (subst DrawLine_loop.simps) (simp add: DrawPixel_def SetPixel_def)
  next
    case False
    have ne: "\<not> (?x = x2 \<and> ?y = y2)" using False less.prems assms(5,6) by auto
    note no = DrawLine_no_overshoot[OF assms(1,2) less.prems(1-4) err_def False]
    have xstep: "p \<ge> 1" if "2 * err \<ge> - b" using no that by simp
    have ystep: "q \<ge> 1" if "2 * err \<le> a" using no that by simp
    define p' where "p' = (if 2 * err \<ge> - b then p - 1 else p)"
    define q' where "q' = (if 2 * err \<le> a then q - 1 else q)"
    define err1 where "err1 = (if 2 * err \<ge> - b then err + - b else err)"
    define err' where "err' = err1 + (if 2 * err \<le> a then a else 0)"
    have bounds: "0 \<le> p'" "p' \<le> a" "0 \<le> q'" "q' \<le> b"
      using xstep ystep less.prems by (auto simp: p'_def q'_def)
    have one: "2 * err \<ge> - b \<or> 2 * err \<le> a"
      using assms(1,2) by linarith
    have dec: "nat (p' + q') < n"
      using less.prems(1,3,5) xstep ystep one unfolding p'_def q'_def
      by (cases "2 * err \<ge> - b"; cases "2 * err \<le> a") simp_all
    have e: "err' = a - b + b * p' - a * q'"
      by (auto simp: err'_def err1_def p'_def q'_def err_def algebra_simps)
    have r: "- (3 * b) \<le> 2 * err'" "2 * err' \<le> 3 * a"
      using lo hi assms(1,2) by (auto simp: err'_def err1_def)
    have x': "(if 2 * err \<ge> - b then ?x + sx else ?x) = x2 - sx * p'"
      by (simp add: p'_def algebra_simps)
    have y': "(if 2 * err \<le> a then ?y + sy else ?y) = y2 - sy * q'"
      by (simp add: q'_def algebra_simps)
    have i1: "int32 (2 * err)"
      using lo hi assms(1-4) unfolding int32_def INT_MAX_def INT_MIN_def by linarith
    have i2: "int32 (err + - b) \<and> int32 (?x + sx)" if "2 * err \<ge> - b"
    proof -
      have xe: "?x + sx = x2 - sx * p'" using that by (simp add: p'_def algebra_simps)
      have "int32 (?x + sx)" unfolding xe by (rule box_x) (rule bounds)+
      moreover have "int32 (err + - b)"
        using that lo hi assms(1-4) unfolding int32_def INT_MAX_def INT_MIN_def by linarith
      ultimately show ?thesis by blast
    qed
    have i3: "int32 ((if 2 * err \<ge> - b then err + - b else err) + a) \<and> int32 (?y + sy)"
      if "2 * err \<le> a"
    proof -
      have ye: "?y + sy = y2 - sy * q'" using that by (simp add: q'_def algebra_simps)
      have "int32 (?y + sy)" unfolding ye by (rule box_y) (rule bounds)+
      moreover have "int32 (err1 + a)"
        using that lo hi assms(1-4) unfolding int32_def INT_MAX_def INT_MIN_def err1_def
        by (cases "2 * err \<ge> - b") simp_all
      ultimately show ?thesis unfolding err1_def by blast
    qed
    have unfold: "DrawLine_loop hdc ?x ?y x2 y2 a (- b) sx sy err color =
        DrawLine_loop ?hdc (x2 - sx * p') (y2 - sy * q') x2 y2 a (- b) sx sy err' color"
      using DrawLine_loop_step[OF ne i1 i2 i3, where hdc = hdc and color = color]
      unfolding x' y' err'_def err1_def by simp
    from less.IH[OF dec bounds refl r[unfolded e], of ?hdc] obtain tr where
      tr: "DrawLine_loop ?hdc (x2 - sx * p') (y2 - sy * q') x2 y2 a (- b) sx sy
             (a - b + b * p' - a * q') color = Some (?hdc @ (x2 - sx * p', y2 - sy * q', color) # tr)"
        "last ((x2 - sx * p', y2 - sy * q', color) # tr) = (x2, y2, color)"
        "steps_ok sx sy ((x2 - sx * p', y2 - sy * q', color) # tr)"
      by blast
    have st: "step_ok sx sy (?x, ?y, color) (x2 - sx * p', y2 - sy * q', color)"
      using dec less.prems by (auto simp: p'_def q'_def algebra_simps split: if_splits)
    show ?thesis
      apply (rule exI[of _ "(x2 - sx * p', y2 - sy * q', color) # tr"])
      using tr st by (simp add: unfold[unfolded err_def e])
  qed
qed

lemma DrawLine_box:
  fixes x1 x2 k :: int
  assumes "int32 x1" "int32 x2" "0 \<le> k" "k \<le> \<bar>x2 - x1\<bar>"
  shows "int32 (x2 - (if x1 < x2 then 1 else - 1) * k)"
proof (cases "x1 < x2")
  case True
  with assms show ?thesis by (simp add: int32_def)
next
  case False
  with assms show ?thesis by (simp add: int32_def)
qed

text \<open>
  C7.  \<^verbatim>\<open>DrawLine\<close> from (0,0) to (5,0) makes exactly six \<^verbatim>\<open>SetPixel\<close> calls, on the pixels
  (0,0), (1,0), (2,0), (3,0), (4,0), (5,0) in this order, each with the given colour; the
  degenerate line from (2,2) to (2,2) makes exactly one call, on the pixel (2,2).
\<close>

theorem DrawLine_examples:
  "DrawLine hdc 0 0 5 0 color =
     Some (hdc @ [(0, 0, color), (1, 0, color), (2, 0, color),
                  (3, 0, color), (4, 0, color), (5, 0, color)]) \<and>
   DrawLine hdc 2 2 2 2 color = Some (hdc @ [(2, 2, color)])"
  by (simp add: DrawLine_def DrawLine_loop.simps DrawPixel_def SetPixel_def checked_def int32_def
        INT_MAX_def INT_MIN_def)

text \<open>
  C8, as stated, fails.  The line from (0,0) to (1500000000,0) has the error term
  1500000000 at its first pixel, and \<^verbatim>\<open>e2 = 2 * err\<close> overflows there: \<^verbatim>\<open>DrawLine\<close> has no
  result.
\<close>

theorem DrawLine_overflow_counterexample:
  "int32 1500000000 \<and> checked (2 * 1500000000) = None \<and>
   DrawLine [] 0 0 1500000000 0 0 = None"
  by (simp add: DrawLine_def DrawLine_loop.simps DrawPixel_def SetPixel_def checked_def int32_def
        INT_MAX_def INT_MIN_def)

text \<open>
  C8, amended.  For endpoints with \<^verbatim>\<open>int\<close> coordinates that differ by at most 715827882
  in \<open>x\<close> and in \<open>y\<close>, no computation of \<^verbatim>\<open>DrawLine\<close> overflows and its loop ends.  The first
  pixel it sets is \<open>(x1, y1)\<close>, the last one is \<open>(x2, y2)\<close>, and from each pixel to the next
  \<open>x\<close> moves by \<open>sx\<close>, or \<open>y\<close> moves by \<open>sy\<close>, or both.
\<close>

theorem DrawLine_terminates:
  assumes "int32 x1" "int32 y1" "int32 x2" "int32 y2"
    and "\<bar>x2 - x1\<bar> \<le> 715827882" "\<bar>y2 - y1\<bar> \<le> 715827882"
  shows "\<exists>tr. DrawLine hdc x1 y1 x2 y2 color = Some (hdc @ (x1, y1, color) # tr) \<and>
        last ((x1, y1, color) # tr) = (x2, y2, color) \<and>
        steps_ok (if x1 < x2 then 1 else - 1) (if y1 < y2 then 1 else - 1)
          ((x1, y1, color) # tr)"
proof -
  define sx :: int where "sx = (if x1 < x2 then 1 else - 1)"
  define sy :: int where "sy = (if y1 < y2 then 1 else - 1)"
  define a where "a = \<bar>x2 - x1\<bar>"
  define b where "b = \<bar>y2 - y1\<bar>"
  have ab: "0 \<le> a" "0 \<le> b" "a \<le> 715827882" "b \<le> 715827882"
    using assms(5,6) by (simp_all add: a_def b_def)
  have ex: "x2 - sx * a = x1" and ey: "y2 - sy * b = y1"
    by (auto simp: sx_def sy_def a_def b_def)
  have sgn: "sx = 1 \<or> sx = - 1" "sy = 1 \<or> sy = - 1" by (auto simp: sx_def sy_def)
  have box_x: "int32 (x2 - sx * k)" if "0 \<le> k" "k \<le> a" for k
    using DrawLine_box[OF assms(1,3), of k] that unfolding sx_def a_def by simp
  have box_y: "int32 (y2 - sy * k)" if "0 \<le> k" "k \<le> b" for k
    using DrawLine_box[OF assms(2,4), of k] that unfolding sy_def b_def by simp
  have e0: "a - b + b * a - a * b = a - b" by (simp add: algebra_simps)
  have "\<exists>tr. DrawLine_loop hdc (x2 - sx * a) (y2 - sy * b) x2 y2 a (- b) sx sy
               (a - b + b * a - a * b) color =
             Some (hdc @ (x2 - sx * a, y2 - sy * b, color) # tr) \<and>
             last ((x2 - sx * a, y2 - sy * b, color) # tr) = (x2, y2, color) \<and>
             steps_ok sx sy ((x2 - sx * a, y2 - sy * b, color) # tr)"
    by (rule DrawLine_loop_ends[OF ab sgn box_x box_y _ _ _ _ refl]) (use ab in \<open>simp_all add: e0\<close>)
  then obtain tr where tr:
    "DrawLine_loop hdc x1 y1 x2 y2 a (- b) sx sy (a - b) color = Some (hdc @ (x1, y1, color) # tr)"
    "last ((x1, y1, color) # tr) = (x2, y2, color)"
    "steps_ok sx sy ((x1, y1, color) # tr)"
    unfolding ex ey e0 by blast
  have d1: "- 715827882 \<le> x2 - x1" "x2 - x1 \<le> 715827882"
    and d2: "- 715827882 \<le> y2 - y1" "y2 - y1 \<le> 715827882"
    using assms(5,6) by linarith+
  have c: "checked (x2 - x1) = Some (x2 - x1)" "checked a = Some a"
    "checked (y2 - y1) = Some (y2 - y1)" "checked b = Some b" "checked (- b) = Some (- b)"
    "checked (a - b) = Some (a - b)"
    using ab d1 d2 by (simp_all add: checked_def int32_def INT_MAX_def INT_MIN_def)
  have "DrawLine hdc x1 y1 x2 y2 color =
        DrawLine_loop hdc x1 y1 x2 y2 a (- b) sx sy (a - b) color"
    unfolding DrawLine_def
    by (simp add: c c[unfolded a_def b_def] a_def[symmetric] b_def[symmetric]
          sx_def[symmetric] sy_def[symmetric])
  with tr show ?thesis
    by (auto simp: sx_def sy_def)
qed

theorem DrawLine_terminates_witness:
  "\<exists>tr. DrawLine [] 0 0 3 (- 2) 7 = Some ((0, 0, 7) # tr) \<and>
        last ((0, 0, 7) # tr) = (3, - 2, 7) \<and> steps_ok 1 (- 1) ((0, 0, 7) # tr)"
  using DrawLine_terminates[of 0 0 3 "- 2" "[]" 7]
  by (simp add: int32_def INT_MAX_def INT_MIN_def)

end
